theory Spec2Isabelle
  imports Complex_Main
begin

section \<open>Errors and strings\<close>

text \<open>
  The repository is JavaScript. A thrown exception is a value: \<open>Inl TypeError\<close> stands for
  the \<open>TypeError\<close> that JavaScript raises when a property of \<open>undefined\<close> is read or when
  \<open>undefined\<close> is spread into an array literal, \<open>Inl RangeError\<close> for the \<open>RangeError\<close>
  that it raises when the recursion exceeds the call stack.
\<close>

datatype error = TypeError | RangeError

text \<open>\<open>String.prototype.split\<close> with a one-character separator: never the empty list.\<close>

fun split :: "char \<Rightarrow> string \<Rightarrow> string list" where
  "split sep [] = [[]]"
| "split sep (c # cs) =
     (if c = sep then [] # split sep cs
      else (case split sep cs of
              [] \<Rightarrow> [[c]]
            | s # ss \<Rightarrow> (c # s) # ss))"

text \<open>\<open>Array.prototype.join\<close> on an array of strings.\<close>

fun join :: "string \<Rightarrow> string list \<Rightarrow> string" where
  "join sep [] = []"
| "join sep [s] = s"
| "join sep (s # t # ss) = s @ sep @ join sep (t # ss)"

text \<open>\<open>String.prototype.startsWith\<close>, \<open>endsWith\<close> and \<open>includes\<close>.\<close>

definition startsWith :: "string \<Rightarrow> string \<Rightarrow> bool" where
  "startsWith s pre = (take (length pre) s = pre)"

definition endsWith :: "string \<Rightarrow> string \<Rightarrow> bool" where
  "endsWith s suffix =
     (length suffix \<le> length s \<and> drop (length s - length suffix) s = suffix)"

fun str_includes :: "string \<Rightarrow> string \<Rightarrow> bool" where
  "str_includes [] sub = (sub = [])"
| "str_includes (c # cs) sub = (startsWith (c # cs) sub \<or> str_includes cs sub)"

text \<open>Running a list of possibly throwing computations: the first exception wins.\<close>

fun collect :: "(error + 'a) list \<Rightarrow> error + 'a list" where
  "collect [] = Inr []"
| "collect (r # rs) =
     (case r of
        Inl e \<Rightarrow> Inl e
      | Inr x \<Rightarrow> (case collect rs of Inl e \<Rightarrow> Inl e | Inr xs \<Rightarrow> Inr (x # xs)))"


section \<open>URL parameterization (\<open>EndpointVisitor.parameterizeURL\<close>)\<close>

text \<open>
  A \<open>Parameter\<close> object. The field \<open>taint_source\<close> is only written by
  \<open>parseTemplateLiteral\<close>; \<open>None\<close> is the absent field.
\<close>

record parameter =
  name :: string
  location :: string
  param_type :: string
  required :: bool
  taint_source :: "bool option"

record parameterized =
  template :: string
  parameters :: "parameter list"

text \<open>The regular expression \<open>/^\<bsol>d+$/\<close>: one or more ASCII digits.\<close>

definition isDigit :: "char \<Rightarrow> bool" where
  "isDigit c = (c \<in> set ''0123456789'')"

definition isNumericSegment :: "string \<Rightarrow> bool" where
  "isNumericSegment seg = (seg \<noteq> [] \<and> list_all isDigit seg)"

text \<open>The regular expression \<open>/^[a-f0-9-]{36}$/\<close>.\<close>

definition isUuidChar :: "char \<Rightarrow> bool" where
  "isUuidChar c = (c \<in> set ''abcdef0123456789-'')"

definition isUuidSegment :: "string \<Rightarrow> bool" where
  "isUuidSegment seg = (length seg = 36 \<and> list_all isUuidChar seg)"

text \<open>
  \<open>inferParameterName(segments, index)\<close>. Reading \<open>segments[index - 1]\<close> out of range gives
  \<open>undefined\<close>, and \<open>undefined.endsWith\<close> throws.
\<close>

definition inferParameterName :: "string list \<Rightarrow> nat \<Rightarrow> error + string" where
  "inferParameterName segments index =
     (if index > 0 then
        (if index - 1 < length segments then
           (let prevSegment = segments ! (index - 1) in
            if endsWith prevSegment ''s'' then Inr (butlast prevSegment @ ''Id'')
            else Inr (prevSegment @ ''Id''))
         else Inl TypeError)
      else Inr ''id'')"

definition pathParameter :: "string \<Rightarrow> string \<Rightarrow> parameter" where
  "pathParameter paramName ty =
     \<lparr>name = paramName, location = ''path'', param_type = ty, required = True,
      taint_source = None\<rparr>"

text \<open>
  The callback of \<open>segments.map((seg, idx) => ...)\<close>: the replacement segment, and the
  parameters it pushes.
\<close>

definition parameterizeSegment ::
  "string list \<Rightarrow> string \<times> nat \<Rightarrow> error + (string \<times> parameter list)" where
  "parameterizeSegment segments = (\<lambda>(seg, idx).
     if isNumericSegment seg then
       (case inferParameterName segments idx of
          Inl e \<Rightarrow> Inl e
        | Inr paramName \<Rightarrow>
            Inr (''{'' @ paramName @ ''}'', [pathParameter paramName ''integer'']))
     else if isUuidSegment seg then
       (case inferParameterName segments idx of
          Inl e \<Rightarrow> Inl e
        | Inr paramName \<Rightarrow>
            Inr (''{'' @ paramName @ ''}'', [pathParameter paramName ''string'']))
     else Inr (seg, []))"

definition parameterizeURL :: "string \<Rightarrow> error + parameterized" where
  "parameterizeURL url =
     (let segments = split CHR ''/'' url in
      case collect (map (parameterizeSegment segments) (zip segments [0..<length segments])) of
        Inl e \<Rightarrow> Inl e
      | Inr results \<Rightarrow>
          Inr \<lparr>template = join ''/'' (map fst results),
               parameters = concat (map snd results)\<rparr>)"

text \<open>
  The naming rule in the words of the specification: the previous segment, without its
  trailing \<open>s\<close> if it has one, followed by \<open>Id\<close>; \<open>id\<close> for the first segment.
\<close>

definition isMatchedSegment :: "string \<Rightarrow> bool" where
  "isMatchedSegment seg = (isNumericSegment seg \<or> isUuidSegment seg)"

definition specParameterName :: "string list \<Rightarrow> nat \<Rightarrow> string" where
  "specParameterName segs i =
     (if i = 0 then ''id''
      else (let prev = segs ! (i - 1) in
            (if prev \<noteq> [] \<and> last prev = CHR ''s'' then butlast prev else prev) @ ''Id''))"

definition specSegment :: "string list \<Rightarrow> nat \<Rightarrow> string" where
  "specSegment segs i =
     (if isMatchedSegment (segs ! i) then ''{'' @ specParameterName segs i @ ''}''
      else segs ! i)"

definition specParameter :: "string list \<Rightarrow> nat \<Rightarrow> parameter" where
  "specParameter segs i =
     \<lparr>name = specParameterName segs i, location = ''path'',
      param_type = (if isNumericSegment (segs ! i) then ''integer'' else ''string''),
      required = True, taint_source = None\<rparr>"


section \<open>JavaScript values and the syntax tree\<close>

text \<open>
  A JavaScript value as far as the code inspects one. Numbers are the finite doubles, each
  of which is a rational; \<open>NaN\<close> and the infinities never occur in a parsed tree. An object
  is the list of its own enumerable properties in insertion order.
\<close>

datatype jsval =
    JUndefined
  | JNull
  | JBool bool
  | JNum rat
  | JStr string
  | JArr "jsval list"
  | JObj "(string \<times> jsval) list"

text \<open>Truthiness, and \<open>a || b\<close>.\<close>

fun truthy :: "jsval \<Rightarrow> bool" where
  "truthy JUndefined = False"
| "truthy JNull = False"
| "truthy (JBool b) = b"
| "truthy (JNum r) = (r \<noteq> 0)"
| "truthy (JStr s) = (s \<noteq> [])"
| "truthy (JArr xs) = True"
| "truthy (JObj kvs) = True"

definition js_or :: "jsval \<Rightarrow> jsval \<Rightarrow> jsval" where
  "js_or a b = (if truthy a then a else b)"

text \<open>
  \<open>span.start\<close> of a node, as the code reads it: an object with \<open>line\<close> and \<open>column\<close>.
  A node without a span has \<open>None\<close>.
\<close>

record position =
  line :: nat
  column :: nat

text \<open>A \<open>TemplateElement\<close>: \<open>cooked\<close> may be absent, \<open>raw\<close> is always there.\<close>

datatype quasi = TemplateElement (cooked: "string option") (raw_text: string)

text \<open>
  The tree the external parser (SWC) delivers, for the node kinds the visitors inspect.
  Every other kind of expression is \<open>OtherNode\<close> with its \<open>type\<close> tag: it has no field
  \<open>value\<close>, and the visitors read nothing else of it. An argument \<open>{spread, expression}\<close> of
  a call is represented by its expression. A member access has a property that is an
  identifier, a computed key or a private name (with its name in \<open>value\<close>); an object
  literal has key-value properties, methods (getters, setters) with a key and no
  \<open>value\<close>, spread elements and shorthand properties without a key. A \<open>BigInt\<close> literal
  carries its sign and the digits of its magnitude.
\<close>

datatype node =
    Identifier string
  | StringLiteral string
  | NumericLiteral rat
  | BooleanLiteral bool
  | NullLiteral
  | BigIntLiteral int "nat list"
  | MemberExpression node mprop
  | TemplateLiteral "quasi list" "node list"
  | BinaryExpression string node node
  | ObjectExpression "property list"
  | CallExpression "position option" node "node list"
  | AssignmentExpression "position option" node node
  | VariableDeclaration "position option" "declarator list"
  | OtherNode string
and mprop =
    PropIdentifier string
  | Computed node
  | PrivateName string
and property =
    KeyValueProperty propkey node
  | MethodProperty propkey
  | SpreadElement node
  | ShorthandProperty string
and propkey =
    KeyIdentifier string
  | KeyString string
  | KeyNumeric rat
  | KeyBigInt int "nat list"
  | KeyComputed node
and declarator =
    VariableDeclarator node "node option"

text \<open>
  The \<open>value\<close> of a \<open>BigInt\<close> literal in the parsed tree: the pair of sign and magnitude
  digits, an array. It is truthy whatever the number, and it is neither a string nor an
  array with a string in it.
\<close>

definition bigIntValue :: "int \<Rightarrow> nat list \<Rightarrow> jsval" where
  "bigIntValue sign digits = JArr [JNum (of_int sign), JArr (map (\<lambda>d. JNum (of_nat d)) digits)]"

text \<open>
  The field \<open>value\<close> of a node: identifiers and the string, numeric, boolean and \<open>BigInt\<close>
  literals have one; \<open>null\<close> and every other kind have none.
\<close>

fun node_value :: "node \<Rightarrow> jsval" where
  "node_value (Identifier v) = JStr v"
| "node_value (StringLiteral v) = JStr v"
| "node_value (NumericLiteral r) = JNum r"
| "node_value (BooleanLiteral b) = JBool b"
| "node_value (BigIntLiteral sign digits) = bigIntValue sign digits"
| "node_value _ = JUndefined"

fun key_value :: "propkey \<Rightarrow> jsval" where
  "key_value (KeyIdentifier v) = JStr v"
| "key_value (KeyString v) = JStr v"
| "key_value (KeyNumeric r) = JNum r"
| "key_value (KeyBigInt sign digits) = bigIntValue sign digits"
| "key_value (KeyComputed e) = JUndefined"

text \<open>The field \<open>value\<close> of the property of a member access.\<close>

fun mprop_value :: "mprop \<Rightarrow> jsval" where
  "mprop_value (PropIdentifier v) = JStr v"
| "mprop_value (PrivateName v) = JStr v"
| "mprop_value (Computed e) = JUndefined"

text \<open>\<open>prop.key?.value\<close> and \<open>prop.value?.value\<close> of a property of an object literal.\<close>

fun prop_key_value :: "property \<Rightarrow> jsval" where
  "prop_key_value (KeyValueProperty k v) = key_value k"
| "prop_key_value (MethodProperty k) = key_value k"
| "prop_key_value (SpreadElement e) = JUndefined"
| "prop_key_value (ShorthandProperty v) = JUndefined"

fun prop_value :: "property \<Rightarrow> node option" where
  "prop_value (KeyValueProperty k v) = Some v"
| "prop_value _ = None"

definition prop_value_value :: "property \<Rightarrow> jsval" where
  "prop_value_value p = (case prop_value p of Some v \<Rightarrow> node_value v | None \<Rightarrow> JUndefined)"


section \<open>The URL template builder (\<open>EndpointVisitor.extractURL\<close>)\<close>

record url = parameterized +
  raw :: string
  protocol :: string

text \<open>
  \<open>parseURL\<close>: the \<open>try\<close>/\<open>catch\<close> turns an exception of \<open>parameterizeURL\<close> into \<open>null\<close>.
\<close>

definition parseURL :: "string \<Rightarrow> url option" where
  "parseURL urlString =
     (let protocol =
            (if startsWith urlString ''ws://'' \<or> startsWith urlString ''wss://''
             then (if startsWith urlString ''wss://'' then ''wss'' else ''ws'')
             else if startsWith urlString ''http://'' then ''http''
             else ''https'')
      in case parameterizeURL urlString of
           Inl e \<Rightarrow> None
         | Inr parameterized \<Rightarrow>
             Some \<lparr>template = template parameterized,
                   parameters = parameters parameterized,
                   raw = urlString, protocol = protocol\<rparr>)"

text \<open>
  \<open>extractParameterName\<close>: for a member access \<open>node.property?.value || 'param'\<close>, where the
  property's \<open>value\<close> is a string when it has one.
\<close>

fun extractParameterName :: "node \<Rightarrow> string" where
  "extractParameterName (Identifier v) = v"
| "extractParameterName (MemberExpression obj (PropIdentifier v)) =
     (if v \<noteq> [] then v else ''param'')"
| "extractParameterName (MemberExpression obj (PrivateName v)) =
     (if v \<noteq> [] then v else ''param'')"
| "extractParameterName _ = ''param''"

text \<open>
  \<open>getMemberExpressionRoot\<close>: descend through \<open>object\<close> while it is a member access, then
  return \<open>current.object?.value || ''\<close>.
\<close>

fun getMemberExpressionRoot :: "node \<Rightarrow> jsval" where
  "getMemberExpressionRoot (MemberExpression (MemberExpression obj p) q) =
     getMemberExpressionRoot (MemberExpression obj p)"
| "getMemberExpressionRoot (MemberExpression obj q) = js_or (node_value obj) (JStr [])"
| "getMemberExpressionRoot _ = JStr []"

definition taintSources :: "string list" where
  "taintSources = [''props'', ''params'', ''req'', ''request'', ''location'', ''window'']"

text \<open>
  \<open>isTaintedExpression\<close>. \<open>objName.includes\<close> is \<open>String.prototype.includes\<close> when the
  root's value is a string and \<open>Array.prototype.includes\<close> (is \<open>src\<close> an element?) when it
  is an array; a truthy number or boolean has no such method and the call throws.
\<close>

fun isTaintedExpression :: "node \<Rightarrow> error + bool" where
  "isTaintedExpression (MemberExpression obj p) =
     (case getMemberExpressionRoot (MemberExpression obj p) of
        JStr objName \<Rightarrow> Inr (list_ex (\<lambda>src. str_includes objName src) taintSources)
      | JArr elems \<Rightarrow> Inr (list_ex (\<lambda>src. JStr src \<in> set elems) taintSources)
      | _ \<Rightarrow> Inl TypeError)"
| "isTaintedExpression _ = Inr False"

definition quasiText :: "quasi \<Rightarrow> string" where
  "quasiText q = (case cooked q of
                    Some s \<Rightarrow> (if s \<noteq> [] then s else raw_text q)
                  | None \<Rightarrow> raw_text q)"

text \<open>
  The loop of \<open>parseTemplateLiteral\<close> over the quasis; the \<open>i\<close>-th quasi is followed by the
  \<open>i\<close>-th expression when there is one. The accumulator is \<open>template\<close> and \<open>parameters\<close>.
\<close>

fun templateLoop ::
  "quasi list \<Rightarrow> node list \<Rightarrow> string \<times> parameter list \<Rightarrow> error + (string \<times> parameter list)"
where
  "templateLoop [] es acc = Inr acc"
| "templateLoop (q # qs) [] (t, ps) = templateLoop qs [] (t @ quasiText q, ps)"
| "templateLoop (q # qs) (e # es) (t, ps) =
     (let paramName = extractParameterName e in
      case isTaintedExpression e of
        Inl err \<Rightarrow> Inl err
      | Inr tainted \<Rightarrow>
          templateLoop qs es
            (t @ quasiText q @ ''{'' @ paramName @ ''}'',
             ps @ [\<lparr>name = paramName, location = ''path'', param_type = ''string'',
                     required = True, taint_source = Some tainted\<rparr>]))"

definition parseTemplateLiteral :: "quasi list \<Rightarrow> node list \<Rightarrow> error + url" where
  "parseTemplateLiteral quasis expressions =
     (case templateLoop quasis expressions ([], []) of
        Inl err \<Rightarrow> Inl err
      | Inr (t, ps) \<Rightarrow>
          Inr \<lparr>template = t, parameters = ps, raw = t, protocol = ''https''\<rparr>)"

text \<open>\<open>extractURL\<close> with \<open>parseConcatenation\<close> inlined in its third case.\<close>

fun extractURL :: "node \<Rightarrow> error + url option" where
  "extractURL (StringLiteral v) = Inr (parseURL v)"
| "extractURL (TemplateLiteral quasis expressions) =
     (case parseTemplateLiteral quasis expressions of
        Inl err \<Rightarrow> Inl err
      | Inr u \<Rightarrow> Inr (Some u))"
| "extractURL (BinaryExpression operator l r) =
     (if operator = ''+'' then
        (case extractURL l of
           Inl err \<Rightarrow> Inl err
         | Inr left \<Rightarrow>
            (case extractURL r of
               Inl err \<Rightarrow> Inl err
             | Inr right \<Rightarrow>
                (case (left, right) of
                   (Some lu, Some ru) \<Rightarrow>
                     Inr (Some \<lparr>template = template lu @ template ru,
                                parameters = parameters lu @ parameters ru,
                                raw = raw lu @ raw ru,
                                protocol = protocol lu\<rparr>)
                 | (Some lu, None) \<Rightarrow> Inr (Some lu)
                 | (None, _) \<Rightarrow> Inr right)))
      else Inr None)"
| "extractURL (Identifier v) =
     Inr (Some \<lparr>template = ''{'' @ v @ ''}'', parameters = [],
                raw = ''{'' @ v @ ''}'', protocol = ''https''\<rparr>)"
| "extractURL _ = Inr None"


section \<open>Header extraction (\<open>EndpointVisitor.extractHeaders\<close>)\<close>




section \<open>Reference notions for the URL builder and the header extraction\<close>

text \<open>
  The names of a property-access chain in the words of the specification: the root
  identifier and every identifier segment after it.
\<close>

fun chainNames :: "node \<Rightarrow> string list" where
  "chainNames (Identifier v) = [v]"
| "chainNames (MemberExpression obj (PropIdentifier v)) = chainNames obj @ [v]"
| "chainNames (MemberExpression obj p) = chainNames obj"
| "chainNames _ = []"

fun isMemberExpression :: "node \<Rightarrow> bool" where
  "isMemberExpression (MemberExpression obj p) = True"
| "isMemberExpression _ = False"

text \<open>
  The specification's reading of \<open>taint_source\<close>: a property-access chain one of whose
  names, root or segment, is a suspect identifier.
\<close>

definition specTaintSource :: "node \<Rightarrow> bool" where
  "specTaintSource e =
     (isMemberExpression e \<and> list_ex (\<lambda>n. n \<in> set taintSources) (chainNames e))"

text \<open>The innermost object of a chain, and what the code tests: its \<open>value\<close> only.\<close>

fun chainRoot :: "node \<Rightarrow> node" where
  "chainRoot (MemberExpression obj p) = chainRoot obj"
| "chainRoot e = e"

definition rootIsSuspect :: "node \<Rightarrow> bool" where
  "rootIsSuspect e =
     (isMemberExpression e \<and>
      (case node_value (chainRoot e) of
         JStr objName \<Rightarrow> list_ex (\<lambda>src. str_includes objName src) taintSources
       | _ \<Rightarrow> False))"




section \<open>The taint analyzer (\<open>TaintAnalyzer\<close>)\<close>

text \<open>
  One entry of \<open>taintState\<close>. A field that the object literal creating the entry leaves
  out is \<open>None\<close>; \<open>reachesSink\<close> is only ever tested for truthiness, so the absent field
  is \<open>False\<close>.
\<close>

record taint =
  name_taint :: string
  isTainted :: bool
  isSource :: "bool option"
  sourceName :: "string option"
  operation :: "string option"
  location_taint :: "position option"
  dependencies :: "string list"
  reachesSink :: bool
  sinkName :: "string option"

record edge =
  from_edge :: string
  to_edge :: string
  operation_edge :: string
  location_edge :: "position option"

text \<open>
  The mutable state of one analyzer: the \<open>Map\<close> from variable names to entries and the
  edge log. Every entry of the map is an object of its own (created by \<open>markTainted\<close> or by
  \<open>propagateTaint\<close>), so updating an entry in place is updating the map at its key.
\<close>

record analyzer =
  taintState :: "string \<rightharpoonup> taint"
  dataflowEdges :: "edge list"

definition newAnalyzer :: analyzer where
  "newAnalyzer = \<lparr>taintState = Map.empty, dataflowEdges = []\<rparr>"

definition sources :: "string list" where
  "sources = [''req.params'', ''req.query'', ''req.body'', ''window.location'',
              ''URLSearchParams'', ''document.cookie'', ''localStorage'', ''sessionStorage'',
              ''location.search'', ''location.hash'']"

definition sinks :: "string list" where
  "sinks = [''fetch'', ''axios'', ''XMLHttpRequest.open'', ''document.write'', ''innerHTML'',
            ''eval'', ''Function'', ''setTimeout'', ''setInterval'', ''postMessage'']"

definition markTainted ::
  "string \<Rightarrow> string option \<Rightarrow> string \<Rightarrow> position option \<Rightarrow> analyzer \<Rightarrow> analyzer" where
  "markTainted varName srcName op loc st =
     st\<lparr>taintState := (taintState st)(varName \<mapsto>
          \<lparr>name_taint = varName,
           isTainted = True,
           isSource = Some (case srcName of Some s \<Rightarrow> s \<noteq> [] | None \<Rightarrow> False),
           sourceName = srcName,
           operation = Some op,
           location_taint = loc,
           dependencies = [],
           reachesSink = False,
           sinkName = None\<rparr>)\<rparr>"

text \<open>The object \<open>{name: toVar, isTainted: false, dependencies: []}\<close>.\<close>

definition freshTaint :: "string \<Rightarrow> taint" where
  "freshTaint toVar =
     \<lparr>name_taint = toVar, isTainted = False, isSource = None, sourceName = None,
      operation = None, location_taint = None, dependencies = [], reachesSink = False,
      sinkName = None\<rparr>"

definition propagateTaint ::
  "string \<Rightarrow> string \<Rightarrow> string \<Rightarrow> position option \<Rightarrow> analyzer \<Rightarrow> analyzer" where
  "propagateTaint fromVar toVar op loc st =
     (case taintState st fromVar of
        None \<Rightarrow> st
      | Some fromTaint \<Rightarrow>
          if \<not> isTainted fromTaint then st
          else
            (let toTaint = (case taintState st toVar of
                              Some t \<Rightarrow> t
                            | None \<Rightarrow> freshTaint toVar);
                 toTaint = toTaint\<lparr>isTainted := True,
                                   sourceName := sourceName fromTaint,
                                   operation := Some op,
                                   location_taint := loc,
                                   dependencies := dependencies toTaint @ [fromVar]\<rparr>
             in st\<lparr>taintState := (taintState st)(toVar \<mapsto> toTaint),
                   dataflowEdges := dataflowEdges st @
                     [\<lparr>from_edge = fromVar, to_edge = toVar, operation_edge = op,
                       location_edge = loc\<rparr>]\<rparr>))"

text \<open>\<open>TaintAnalyzer.isTainted(varName)\<close>, as a truth value.\<close>

definition isTaintedVar :: "analyzer \<Rightarrow> string \<Rightarrow> bool" where
  "isTaintedVar st varName =
     (case taintState st varName of Some t \<Rightarrow> isTainted t | None \<Rightarrow> False)"


section \<open>The taint visitor (\<open>TaintVisitor\<close>)\<close>

fun getIdentifierName :: "node \<Rightarrow> string option" where
  "getIdentifierName (Identifier v) = Some v"
| "getIdentifierName _ = None"

text \<open>
  \<open>getMemberPath\<close>: \<open>walk\<close> puts the property name in front of \<open>parts\<close> and goes on to the
  object, so the parts of the object come before the property.
\<close>

fun memberParts :: "node \<Rightarrow> string list" where
  "memberParts (Identifier v) = [v]"
| "memberParts (MemberExpression obj (PropIdentifier v)) = memberParts obj @ [v]"
| "memberParts (MemberExpression obj p) = memberParts obj"
| "memberParts _ = []"

definition getMemberPath :: "node \<Rightarrow> string" where
  "getMemberPath n = join ''.'' (memberParts n)"

fun getCalleeName :: "node \<Rightarrow> string" where
  "getCalleeName (Identifier v) = v"
| "getCalleeName (MemberExpression obj p) = getMemberPath (MemberExpression obj p)"
| "getCalleeName _ = []"

definition visitMemberExpression :: "node \<Rightarrow> string option" where
  "visitMemberExpression n =
     find (\<lambda>source. str_includes (getMemberPath n) source) sources"

fun checkSource :: "node \<Rightarrow> string option" where
  "checkSource (MemberExpression obj p) = visitMemberExpression (MemberExpression obj p)"
| "checkSource _ = None"

text \<open>The body of the loop over the arguments of a sink call.\<close>

fun markSinkReached :: "string \<Rightarrow> node \<Rightarrow> analyzer \<Rightarrow> analyzer" where
  "markSinkReached calleeName (Identifier argVar) st =
     (if isTaintedVar st argVar then
        (case taintState st argVar of
           Some t \<Rightarrow>
             st\<lparr>taintState := (taintState st)(argVar \<mapsto>
                   t\<lparr>reachesSink := True, sinkName := Some calleeName\<rparr>)\<rparr>
         | None \<Rightarrow> st)
      else st)"
| "markSinkReached calleeName arg st = st"

fun visitCallExpression :: "node \<Rightarrow> analyzer \<Rightarrow> analyzer" where
  "visitCallExpression (CallExpression sp callee args) st =
     (let calleeName = getCalleeName callee in
      if calleeName \<in> set sinks then fold (markSinkReached calleeName) args st else st)"
| "visitCallExpression n st = st"

text \<open>The body of the loop over \<open>node.declarations\<close>; \<open>loc\<close> is \<open>node.span?.start\<close>.\<close>

fun visitDeclarator :: "position option \<Rightarrow> declarator \<Rightarrow> analyzer \<Rightarrow> analyzer" where
  "visitDeclarator loc (VariableDeclarator ident init) st =
     (case getIdentifierName ident of
        None \<Rightarrow> st
      | Some varName \<Rightarrow>
          if varName = [] then st
          else
            (case init of
               None \<Rightarrow> st
             | Some ini \<Rightarrow>
                 (let st1 = (case checkSource ini of
                               Some srcName \<Rightarrow>
                                 if srcName \<noteq> []
                                 then markTainted varName (Some srcName) ''assignment'' loc st
                                 else st
                             | None \<Rightarrow> st)
                  in case ini of
                       Identifier initVar \<Rightarrow>
                         if isTaintedVar st1 initVar
                         then propagateTaint initVar varName ''assignment'' loc st1
                         else st1
                     | _ \<Rightarrow> st1)))"

fun visitVariableDeclaration :: "node \<Rightarrow> analyzer \<Rightarrow> analyzer" where
  "visitVariableDeclaration (VariableDeclaration sp declarations) st =
     fold (visitDeclarator sp) declarations st"
| "visitVariableDeclaration n st = st"

fun visitAssignment :: "node \<Rightarrow> analyzer \<Rightarrow> analyzer" where
  "visitAssignment (AssignmentExpression sp left right) st =
     (case getIdentifierName left of
        None \<Rightarrow> st
      | Some leftVar \<Rightarrow>
          if leftVar = [] then st
          else
            (let st1 = (case right of
                          Identifier rightVar \<Rightarrow>
                            if isTaintedVar st rightVar
                            then propagateTaint rightVar leftVar ''assignment'' sp st
                            else st
                        | _ \<Rightarrow> st)
             in case checkSource right of
                  Some srcName \<Rightarrow>
                    if srcName \<noteq> []
                    then markTainted leftVar (Some srcName) ''assignment'' sp st1
                    else st1
                | None \<Rightarrow> st1))"
| "visitAssignment n st = st"

text \<open>
  The dispatch at the head of \<open>visitNode\<close>. The handlers for member accesses and template
  literals only return a value, which \<open>visitNode\<close> drops.
\<close>

fun visitNodeHandlers :: "node \<Rightarrow> analyzer \<Rightarrow> analyzer" where
  "visitNodeHandlers (VariableDeclaration sp ds) st =
     visitVariableDeclaration (VariableDeclaration sp ds) st"
| "visitNodeHandlers (AssignmentExpression sp l r) st =
     visitAssignment (AssignmentExpression sp l r) st"
| "visitNodeHandlers (CallExpression sp c args) st =
     visitCallExpression (CallExpression sp c args) st"
| "visitNodeHandlers n st = st"


section \<open>Confidence of a flow (\<open>TaintAnalyzer.calculateConfidence\<close>)\<close>

text \<open>
  A step of a reconstructed path. Confidence is computed in double precision by the
  code; the model computes in the real numbers.
\<close>

record step =
  variable :: string
  operation_step :: "string option"
  location_step :: "position option"

definition sanitizers :: "string list" where
  "sanitizers = [''encodeURIComponent'', ''escape'', ''sanitize'', ''validate'']"

definition isSanitized :: "step \<Rightarrow> bool" where
  "isSanitized st =
     list_ex (\<lambda>s. case operation_step st of Some op \<Rightarrow> str_includes op s | None \<Rightarrow> False)
       sanitizers"

definition calculateConfidence :: "step list \<Rightarrow> real" where
  "calculateConfidence path =
     (let confidence = 1 * exp (- (1 / 10) * real (length path));
          confidence = fold (\<lambda>st c. if isSanitized st then c * (3 / 10) else c) path confidence
      in max 0 (min 1 confidence))"


section \<open>Reference notions for the taint tracker\<close>

text \<open>\<open>reaches_sink\<close> of a variable in the taint table; an untracked variable has none.\<close>

definition reachesSinkVar :: "analyzer \<Rightarrow> string \<Rightarrow> bool" where
  "reachesSinkVar st v = (case taintState st v of Some t \<Rightarrow> reachesSink t | None \<Rightarrow> False)"

text \<open>
  The specification's sink test: the flattened callee name contains a sink fragment.
\<close>

definition specIsSink :: "string \<Rightarrow> bool" where
  "specIsSink calleeName = list_ex (\<lambda>sink. str_includes calleeName sink) sinks"

text \<open>
  A node that makes the visitor call \<open>markTainted\<close> on the variable \<open>v\<close>: a declaration or
  an assignment of \<open>v\<close> whose right-hand side is a member access matching a source.
\<close>

fun declaresFromSource :: "string \<Rightarrow> declarator \<Rightarrow> bool" where
  "declaresFromSource v (VariableDeclarator ident init) =
     (getIdentifierName ident = Some v \<and>
      (case init of Some ini \<Rightarrow> checkSource ini \<noteq> None | None \<Rightarrow> False))"

fun marksAgain :: "string \<Rightarrow> node \<Rightarrow> bool" where
  "marksAgain v (VariableDeclaration sp ds) = list_ex (declaresFromSource v) ds"
| "marksAgain v (AssignmentExpression sp l r) =
     (getIdentifierName l = Some v \<and> checkSource r \<noteq> None)"
| "marksAgain v n = False"


section \<open>Endpoint candidates and deduplication (\<open>deduplicateEndpoints\<close>)\<close>

text \<open>
  The entries of \<open>evidence\<close> and the \<open>source_code\<close> object of a candidate. A field that an
  extractor leaves out is \<open>None\<close>.
\<close>

record evidence_entry =
  evidence_type :: string
  description :: string
  evidence_file :: string
  evidence_line :: nat

record source_code =
  original_file :: string
  source_line :: nat
  source_column :: "nat option"
  function_name :: "jsval option"
  ast_node_path :: string

text \<open>
  A candidate as the extractors build it. \<open>extractFetchEndpoint\<close> and
  \<open>extractAxiosEndpoint\<close> write \<open>evidence\<close>; \<open>extractWebSocketEndpoint\<close> and
  \<open>extractJQueryEndpoint\<close> do not.
\<close>

record endpoint =
  url_template :: string
  url_raw :: string
  endpoint_method :: string
  endpoint_protocol :: string
  endpoint_parameters :: "parameter list"
  source_code :: source_code
  evidence :: "evidence_entry list option"
  request_headers :: "(jsval \<times> jsval) list option"

text \<open>
  \<open>String.prototype.toUpperCase\<close> on the ASCII letters (the characters of the model are
  bytes).
\<close>

definition upperChar :: "char \<Rightarrow> char" where
  "upperChar c =
     (case map_of (zip ''abcdefghijklmnopqrstuvwxyz'' ''ABCDEFGHIJKLMNOPQRSTUVWXYZ'') c of
        Some u \<Rightarrow> u
      | None \<Rightarrow> c)"

definition toUpperCase :: "string \<Rightarrow> string" where
  "toUpperCase s = map upperChar s"

fun isJQueryAjax :: "node \<Rightarrow> bool" where
  "isJQueryAjax (CallExpression sp (MemberExpression obj prop) args) =
     ((node_value obj = JStr ''$'' \<or> node_value obj = JStr ''jQuery'') \<and>
      (case mprop_value prop of
         JStr v \<Rightarrow> v \<in> set [''ajax'', ''get'', ''post'']
       | _ \<Rightarrow> False))"
| "isJQueryAjax n = False"

text \<open>
  \<open>typeProp?.value?.value?.toUpperCase() || 'GET'\<close>: a number or a boolean has no
  \<open>toUpperCase\<close>, and calling it throws.
\<close>

definition jqueryMethod :: "property option \<Rightarrow> error + string" where
  "jqueryMethod typeProp =
     (case typeProp of
        None \<Rightarrow> Inr ''GET''
      | Some p \<Rightarrow>
          (case prop_value_value p of
             JStr s \<Rightarrow> Inr (if toUpperCase s \<noteq> [] then toUpperCase s else ''GET'')
           | JUndefined \<Rightarrow> Inr ''GET''
           | JNull \<Rightarrow> Inr ''GET''
           | _ \<Rightarrow> Inl TypeError))"

text \<open>
  \<open>extractJQueryEndpoint(node, nodePath)\<close> of a visitor with the given \<open>fileName\<close>. A
  \<open>url\<close> property without a \<open>value\<close> makes \<open>extractURL\<close> read \<open>undefined.type\<close>.
\<close>

fun extractJQueryEndpoint :: "string \<Rightarrow> node \<Rightarrow> string list \<Rightarrow> error + endpoint option" where
  "extractJQueryEndpoint fileName (CallExpression sp callee []) nodePath = Inr None"
| "extractJQueryEndpoint fileName (CallExpression sp callee (ObjectExpression props # rest))
     nodePath =
     (case find (\<lambda>p. prop_key_value p = JStr ''url'') props of
        None \<Rightarrow> Inr None
      | Some urlProp \<Rightarrow>
          (case prop_value urlProp of
             None \<Rightarrow> Inl TypeError
           | Some urlNode \<Rightarrow>
               (case extractURL urlNode of
                  Inl e \<Rightarrow> Inl e
                | Inr None \<Rightarrow> Inr None
                | Inr (Some u) \<Rightarrow>
                    (case jqueryMethod
                            (find (\<lambda>p. prop_key_value p = JStr ''type'' \<or>
                                        prop_key_value p = JStr ''method'') props) of
                       Inl e \<Rightarrow> Inl e
                     | Inr m \<Rightarrow>
                         Inr (Some
                           \<lparr>url_template = template u,
                            url_raw = raw u,
                            endpoint_method = m,
                            endpoint_protocol = protocol u,
                            endpoint_parameters = parameters u,
                            source_code =
                              \<lparr>original_file = fileName,
                               source_line = (case sp of Some p \<Rightarrow> line p | None \<Rightarrow> 0),
                               source_column = None,
                               function_name = None,
                               ast_node_path = join '' > '' nodePath\<rparr>,
                            evidence = None,
                            request_headers = None\<rparr>)))))"
| "extractJQueryEndpoint fileName (CallExpression sp callee (configObj # rest)) nodePath =
     Inr None"
| "extractJQueryEndpoint fileName n nodePath = Inl TypeError"

text \<open>
  The \<open>Map\<close> \<open>seen\<close> keeps its keys in insertion order: an association list with distinct
  keys. \<open>seenSet\<close> is \<open>seen.set(key, ep)\<close>.
\<close>

fun seenSet :: "string \<Rightarrow> endpoint \<Rightarrow> (string \<times> endpoint) list \<Rightarrow> (string \<times> endpoint) list"
where
  "seenSet key ep [] = [(key, ep)]"
| "seenSet key ep ((k, e) # seen) =
     (if k = key then (k, ep) # seen else (k, e) # seenSet key ep seen)"

definition endpointKey :: "endpoint \<Rightarrow> string" where
  "endpointKey ep = endpoint_method ep @ '':'' @ url_template ep"

text \<open>
  The body of \<open>endpoints.forEach\<close>. Spreading \<open>undefined\<close> in
  \<open>[...existing.evidence, ...ep.evidence]\<close> throws.
\<close>

definition dedupStep ::
  "endpoint \<Rightarrow> (string \<times> endpoint) list \<Rightarrow> error + (string \<times> endpoint) list" where
  "dedupStep ep seen =
     (let key = endpointKey ep in
      case map_of seen key of
        None \<Rightarrow> Inr (seenSet key ep seen)
      | Some existing \<Rightarrow>
          (case evidence existing of
             None \<Rightarrow> Inl TypeError
           | Some old \<Rightarrow>
               (case evidence ep of
                  None \<Rightarrow> Inl TypeError
                | Some new \<Rightarrow>
                    Inr (seenSet key (existing\<lparr>evidence := Some (old @ new)\<rparr>) seen))))"

fun dedupLoop ::
  "endpoint list \<Rightarrow> (string \<times> endpoint) list \<Rightarrow> error + (string \<times> endpoint) list" where
  "dedupLoop [] seen = Inr seen"
| "dedupLoop (ep # eps) seen =
     (case dedupStep ep seen of
        Inl e \<Rightarrow> Inl e
      | Inr seen' \<Rightarrow> dedupLoop eps seen')"

definition deduplicateEndpoints :: "endpoint list \<Rightarrow> error + endpoint list" where
  "deduplicateEndpoints endpoints =
     (case dedupLoop endpoints [] of
        Inl e \<Rightarrow> Inl e
      | Inr seen \<Rightarrow> Inr (map snd seen))"


text \<open>
  The call \<open>$.ajax({url: '/api/items'})\<close> and the candidate that the extractor builds for
  it.
\<close>

definition ajaxItemsCall :: node where
  "ajaxItemsCall =
     CallExpression None (MemberExpression (Identifier ''$'') (PropIdentifier ''ajax''))
       [ObjectExpression [KeyValueProperty (KeyIdentifier ''url'') (StringLiteral ''/api/items'')]]"

definition ajaxItemsCandidate :: endpoint where
  "ajaxItemsCandidate =
     \<lparr>url_template = ''/api/items'', url_raw = ''/api/items'',
      endpoint_method = ''GET'',
      endpoint_protocol = ''https'', endpoint_parameters = [],
      source_code = \<lparr>original_file = ''app.js'', source_line = 0, source_column = None,
                      function_name = None, ast_node_path = ''Module > CallExpression''\<rparr>,
      evidence = None, request_headers = None\<rparr>"


text \<open>
  Deduplication in the words of the specification, for candidates that all carry evidence:
  the first record of a key is kept, with the evidence of the later records of that key
  appended in encounter order; the records of other keys follow in the same way.
\<close>

definition evidenceOf :: "endpoint \<Rightarrow> evidence_entry list" where
  "evidenceOf ep = (case evidence ep of Some ev \<Rightarrow> ev | None \<Rightarrow> [])"

function specDedup :: "endpoint list \<Rightarrow> endpoint list" where
  "specDedup [] = []"
| "specDedup (ep # eps) =
     ep\<lparr>evidence := Some (evidenceOf ep @
        concat (map evidenceOf (filter (\<lambda>x. endpointKey x = endpointKey ep) eps)))\<rparr>
     # specDedup (filter (\<lambda>x. endpointKey x \<noteq> endpointKey ep) eps)"
  by pat_completeness auto

termination
  by (relation "measure length") (auto simp: less_Suc_eq_le)

text \<open>An entry of \<open>seen\<close> with the evidence of the later records of its key appended.\<close>

definition withLaterEvidence :: "endpoint list \<Rightarrow> string \<times> endpoint \<Rightarrow> string \<times> endpoint" where
  "withLaterEvidence eps p =
     (fst p, (snd p)\<lparr>evidence := Some (evidenceOf (snd p) @
        concat (map evidenceOf (filter (\<lambda>y. endpointKey y = fst p) eps)))\<rparr>)"

section \<open>Reference notions for the recorded headers\<close>





section \<open>The tree walker (\<open>traverseAST\<close>)\<close>

















section \<open>Verified properties\<close>

subsection \<open>URL parameterization\<close>

lemma split_not_Nil: "split sep s \<noteq> []"
  by (induction s) (auto split: list.splits)

lemma split_no_sep: "x \<in> set (split sep s) \<Longrightarrow> sep \<notin> set x"
proof (induction s arbitrary: x)
  case Nil
  then show ?case by simp
next
  case (Cons c cs)
  show ?case
  proof (cases "c = sep")
    case True
    with Cons show ?thesis by auto
  next
    case False
    obtain t ts where ts: "split sep cs = t # ts"
      using split_not_Nil [of sep cs] by (cases "split sep cs") auto
    with Cons False show ?thesis by auto
  qed
qed

lemma split_no_sep_string: "sep \<notin> set s \<Longrightarrow> split sep s = [s]"
  by (induction s) auto

lemma split_append_sep:
  "sep \<notin> set s \<Longrightarrow> split sep (s @ sep # rest) = s # split sep rest"
  by (induction s) auto

lemma split_join:
  "xs \<noteq> [] \<Longrightarrow> list_all (\<lambda>x. sep \<notin> set x) xs \<Longrightarrow> split sep (join [sep] xs) = xs"
proof (induction xs rule: induct_list012)
  case 1
  then show ?case by simp
next
  case (2 s)
  then show ?case by (simp add: split_no_sep_string)
next
  case (3 s t ss)
  then show ?case by (simp add: split_append_sep)
qed

lemma endsWith_s: "endsWith p ''s'' = (p \<noteq> [] \<and> last p = CHR ''s'')"
proof (cases p rule: rev_cases)
  case Nil
  then show ?thesis by (simp add: endsWith_def)
next
  case (snoc ys y)
  then show ?thesis by (auto simp: endsWith_def)
qed

lemma inferParameterName_spec:
  "i < length segs \<Longrightarrow> inferParameterName segs i = Inr (specParameterName segs i)"
  by (auto simp: inferParameterName_def specParameterName_def endsWith_s Let_def)

lemma parameterizeSegment_spec:
  "i < length segs \<Longrightarrow>
   parameterizeSegment segs (segs ! i, i) =
     Inr (specSegment segs i, if isMatchedSegment (segs ! i) then [specParameter segs i] else [])"
  by (auto simp: parameterizeSegment_def inferParameterName_spec specSegment_def
        specParameter_def pathParameter_def isMatchedSegment_def)

lemma collect_all_Inr:
  "list_all (\<lambda>x. f x = Inr (g x)) xs \<Longrightarrow> collect (map f xs) = Inr (map g xs)"
  by (induction xs) auto

lemma zip_upt_map: "zip xs [0..<length xs] = map (\<lambda>i. (xs ! i, i)) [0..<length xs]"
  by (rule nth_equalityI) auto

lemma concat_map_if_filter:
  "concat (map (\<lambda>i. if P i then [f i] else []) xs) = map f (filter P xs)"
  by (induction xs) auto

lemma parameterizeURL_results:
  "parameterizeURL url =
     (let segs = split CHR ''/'' url in
      Inr \<lparr>template = join ''/'' (map (specSegment segs) [0..<length segs]),
           parameters = map (specParameter segs)
                          (filter (\<lambda>i. isMatchedSegment (segs ! i)) [0..<length segs])\<rparr>)"
proof -
  define segs where "segs = split CHR ''/'' url"
  let ?g = "\<lambda>i. (specSegment segs i, if isMatchedSegment (segs ! i) then [specParameter segs i] else [])"
  have "list_all (\<lambda>p. parameterizeSegment segs p = Inr (?g (snd p))) (zip segs [0..<length segs])"
    by (simp add: zip_upt_map list_all_iff parameterizeSegment_spec)
  then have "collect (map (parameterizeSegment segs) (zip segs [0..<length segs]))
               = Inr (map (\<lambda>p. ?g (snd p)) (zip segs [0..<length segs]))"
    by (rule collect_all_Inr)
  then show ?thesis
    unfolding parameterizeURL_def segs_def[symmetric] Let_def
    by (simp add: zip_upt_map comp_def concat_map_if_filter)
qed

lemma specParameterName_no_slash:
  assumes i: "i < length segs" and all: "list_all (\<lambda>x. CHR ''/'' \<notin> set x) segs"
  shows "CHR ''/'' \<notin> set (specParameterName segs i)"
proof (cases "i = 0")
  case True
  then show ?thesis by (simp add: specParameterName_def)
next
  case False
  with i have "segs ! (i - 1) \<in> set segs" by simp
  with all have ns: "CHR ''/'' \<notin> set (segs ! (i - 1))" by (simp add: list_all_iff)
  then have "CHR ''/'' \<notin> set (butlast (segs ! (i - 1)))"
    by (meson in_set_butlastD)
  with ns False show ?thesis by (simp add: specParameterName_def Let_def)
qed

lemma specSegment_no_slash:
  "i < length segs \<Longrightarrow> list_all (\<lambda>x. CHR ''/'' \<notin> set x) segs \<Longrightarrow>
   CHR ''/'' \<notin> set (specSegment segs i)"
  using specParameterName_no_slash [of i segs]
  by (auto simp: specSegment_def list_all_iff)

text \<open>
  Claim C5. For the literal \<open>/users/123\<close> the URL parameterization returns the template
  \<open>/users/{userId}\<close> and exactly one parameter (\<open>userId\<close>, path, integer, required).
  In general, for every literal: the call does not throw, the template splits on \<open>/\<close> into
  as many segments as the literal, every segment that is all digits or UUID-shaped is
  replaced by \<open>{name}\<close> and contributes one parameter, in order, where \<open>name\<close> is the
  previous segment without its trailing \<open>s\<close> (if it has one) followed by \<open>Id\<close>, and
  \<open>id\<close> when the matched segment is the first one; all other segments are unchanged.
\<close>

theorem parameterizeURL_users_123:
  "parameterizeURL ''/users/123'' =
     Inr \<lparr>template = ''/users/{userId}'',
          parameters = [\<lparr>name = ''userId'', location = ''path'', param_type = ''integer'',
                         required = True, taint_source = None\<rparr>]\<rparr>
   \<and> (\<exists>r. parameterizeURL url = Inr r
        \<and> split CHR ''/'' (template r) =
            map (specSegment (split CHR ''/'' url)) [0..<length (split CHR ''/'' url)]
        \<and> parameters r =
            map (specParameter (split CHR ''/'' url))
              (filter (\<lambda>i. isMatchedSegment (split CHR ''/'' url ! i))
                 [0..<length (split CHR ''/'' url)]))"
proof -
  have concrete: "parameterizeURL ''/users/123'' =
     Inr \<lparr>template = ''/users/{userId}'',
          parameters = [\<lparr>name = ''userId'', location = ''path'', param_type = ''integer'',
                         required = True, taint_source = None\<rparr>]\<rparr>"
    by (simp add: parameterizeURL_def parameterizeSegment_def isNumericSegment_def isDigit_def
        isUuidSegment_def inferParameterName_def endsWith_def pathParameter_def upt_rec)
  define segs where "segs = split CHR ''/'' url"
  have ne: "segs \<noteq> []" by (simp add: segs_def split_not_Nil)
  have ns: "list_all (\<lambda>x. CHR ''/'' \<notin> set x) segs"
    by (simp add: segs_def list_all_iff split_no_sep)
  have "list_all (\<lambda>x. CHR ''/'' \<notin> set x) (map (specSegment segs) [0..<length segs])"
    using specSegment_no_slash [OF _ ns] by (simp add: list_all_iff)
  moreover have "map (specSegment segs) [0..<length segs] \<noteq> []" using ne by simp
  ultimately have "split CHR ''/'' (join ''/'' (map (specSegment segs) [0..<length segs]))
      = map (specSegment segs) [0..<length segs]"
    by (rule split_join [rotated])
  then have "\<exists>r. parameterizeURL url = Inr r
        \<and> split CHR ''/'' (template r) = map (specSegment segs) [0..<length segs]
        \<and> parameters r = map (specParameter segs)
              (filter (\<lambda>i. isMatchedSegment (segs ! i)) [0..<length segs])"
    by (simp add: parameterizeURL_results segs_def[symmetric] Let_def)
  with concrete show ?thesis unfolding segs_def by blast
qed

theorem parameterizeURL_users_123_witness:
  "\<exists>r. parameterizeURL ''/api/orders/42'' = Inr r
     \<and> split CHR ''/'' (template r) = ['''', ''api'', ''orders'', ''{orderId}'']
     \<and> map name (parameters r) = [''orderId'']"
proof -
  have s: "split CHR ''/'' ''/api/orders/42'' = ['''', ''api'', ''orders'', ''42'']" by simp
  show ?thesis
    using parameterizeURL_users_123 [of "''/api/orders/42''"] unfolding s
    by (auto simp: specSegment_def specParameter_def specParameterName_def isMatchedSegment_def
        isNumericSegment_def isUuidSegment_def isDigit_def upt_rec)
qed


subsection \<open>Interpolated strings\<close>

lemma templateLoop_template:
  "templateLoop qs es (t, ps) = Inr (t', ps') \<Longrightarrow>
   ps' = ps @ map (\<lambda>e. \<lparr>name = extractParameterName e, location = ''path'',
                        param_type = ''string'', required = True,
                        taint_source = Some (isTaintedExpression e = Inr True)\<rparr>)
                (take (length qs) es)"
proof (induction qs es "(t, ps)" arbitrary: t ps rule: templateLoop.induct)
  case (1 es)
  then show ?case by simp
next
  case (2 q qs t ps)
  then show ?case by simp
next
  case (3 q qs e es t ps)
  from "3.prems" obtain b where b: "isTaintedExpression e = Inr b"
    by (cases "isTaintedExpression e") (auto simp: Let_def)
  with "3.prems" have
    "templateLoop qs es
       (t @ quasiText q @ ''{'' @ extractParameterName e @ ''}'',
        ps @ [\<lparr>name = extractParameterName e, location = ''path'', param_type = ''string'',
                required = True, taint_source = Some b\<rparr>]) = Inr (t', ps')"
    by (simp add: Let_def)
  from "3.hyps" [OF refl b this] b show ?case by simp
qed

lemma getMemberExpressionRoot_chainRoot:
  "getMemberExpressionRoot (MemberExpression obj p) = js_or (node_value (chainRoot obj)) (JStr [])"
  by (induction "MemberExpression obj p" arbitrary: obj p rule: getMemberExpressionRoot.induct)
     auto

lemma node_value_array: "node_value n = JArr elems \<Longrightarrow> JStr s \<notin> set elems"
  by (cases n) (auto simp: bigIntValue_def)

lemma isTaintedExpression_root:
  "(isTaintedExpression e = Inr True) = rootIsSuspect e"
proof (cases e)
  case (MemberExpression obj p)
  show ?thesis
  proof (cases "node_value (chainRoot obj)")
    case (JStr s)
    then show ?thesis
      using MemberExpression
      by (cases "s = []")
         (auto simp: rootIsSuspect_def getMemberExpressionRoot_chainRoot js_or_def
            taintSources_def startsWith_def simp del: getMemberExpressionRoot.simps
            elim: str_includes.elims)
  next
    case (JArr elems)
    have "\<not> list_ex (\<lambda>src. JStr src \<in> set elems) taintSources"
      using node_value_array [OF JArr] by (simp add: list_ex_iff)
    with JArr MemberExpression show ?thesis
      by (simp add: rootIsSuspect_def getMemberExpressionRoot_chainRoot js_or_def
          del: getMemberExpressionRoot.simps)
  qed (use MemberExpression in
       \<open>auto simp: rootIsSuspect_def getMemberExpressionRoot_chainRoot js_or_def
          taintSources_def startsWith_def simp del: getMemberExpressionRoot.simps\<close>)
qed (auto simp: rootIsSuspect_def)


text \<open>
  Claim C9. For every interpolated-string URL expression the builder's output has
  \<open>raw\<close> equal to \<open>template\<close>, character for character: \<open>url_raw\<close> holds the
  \<open>{name}\<close> placeholders of the template, not the interpolation syntax of the source.
\<close>

theorem template_literal_raw_is_template:
  "(parseTemplateLiteral quasis expressions = Inr u \<longrightarrow> raw u = template u) \<and>
   (extractURL (TemplateLiteral quasis expressions) = Inr r \<longrightarrow>
      (\<exists>u. r = Some u \<and> raw u = template u))"
  by (auto simp: parseTemplateLiteral_def split: sum.splits prod.splits)

theorem template_literal_raw_is_template_witness:
  "\<exists>u. extractURL (TemplateLiteral
            [TemplateElement (Some []) [], TemplateElement (Some ''/orders/'') ''/orders/'',
             TemplateElement (Some []) []]
            [Identifier ''baseUrl'', Identifier ''orderId'']) = Inr (Some u)
       \<and> template u = ''{baseUrl}/orders/{orderId}''
       \<and> raw u = template u"
  using template_literal_raw_is_template
    [of "[TemplateElement (Some []) [], TemplateElement (Some ''/orders/'') ''/orders/'',
          TemplateElement (Some []) []]"
        "[Identifier ''baseUrl'', Identifier ''orderId'']"]
  by (simp add: parseTemplateLiteral_def quasiText_def)

text \<open>
  Claim C8, as the specification states it, fails: in \<open>user.params.id\<close> the segment
  \<open>params\<close> is a suspect identifier, and the parameter emitted for the interpolated
  string with that expression has \<open>taint_source = false\<close>.
\<close>

theorem taint_source_segment_counterexample:
  "specTaintSource
     (MemberExpression (MemberExpression (Identifier ''user'') (PropIdentifier ''params''))
        (PropIdentifier ''id''))
   \<and> parseTemplateLiteral
       [TemplateElement (Some ''/x/'') ''/x/'', TemplateElement (Some []) []]
       [MemberExpression (MemberExpression (Identifier ''user'') (PropIdentifier ''params''))
          (PropIdentifier ''id'')]
     = Inr \<lparr>template = ''/x/{id}'',
            parameters = [\<lparr>name = ''id'', location = ''path'', param_type = ''string'',
                           required = True, taint_source = Some False\<rparr>],
            raw = ''/x/{id}'', protocol = ''https''\<rparr>"
  by (simp add: specTaintSource_def taintSources_def parseTemplateLiteral_def quasiText_def
      js_or_def startsWith_def)

text \<open>
  Claim C8, amended. Whenever the builder returns for an interpolated string, the
  parameter emitted for an embedded expression has \<open>taint_source\<close> true if and only if the
  expression is a property-access chain whose root, the innermost object of the chain,
  has a string \<open>value\<close> (an identifier's name, a string literal's text) that contains one
  of \<open>props\<close>, \<open>params\<close>, \<open>req\<close>, \<open>request\<close>, \<open>location\<close>, \<open>window\<close> as a substring. The
  names of the segments after the root are not inspected.
\<close>

theorem taint_source_root_only:
  "parseTemplateLiteral quasis expressions = Inr u \<Longrightarrow> i < length (parameters u) \<Longrightarrow>
   i < length expressions \<and>
   taint_source (parameters u ! i) = Some (rootIsSuspect (expressions ! i))"
proof -
  assume r: "parseTemplateLiteral quasis expressions = Inr u" and i: "i < length (parameters u)"
  from r obtain t ps where
    loop: "templateLoop quasis expressions ([], []) = Inr (t, ps)" and u: "parameters u = ps"
    by (auto simp: parseTemplateLiteral_def split: sum.splits prod.splits)
  from templateLoop_template [OF loop] u
  have ps: "parameters u =
      map (\<lambda>e. \<lparr>name = extractParameterName e, location = ''path'', param_type = ''string'',
                 required = True, taint_source = Some (isTaintedExpression e = Inr True)\<rparr>)
        (take (length quasis) expressions)"
    by simp
  with i have il: "i < length (take (length quasis) expressions)" by simp
  then have ie: "i < length expressions" and iq: "i < length quasis" by simp_all
  from ie iq have "parameters u ! i =
      \<lparr>name = extractParameterName (expressions ! i), location = ''path'',
       param_type = ''string'', required = True,
       taint_source = Some (isTaintedExpression (expressions ! i) = Inr True)\<rparr>"
    unfolding ps by simp
  with ie show ?thesis by (simp add: isTaintedExpression_root)
qed

theorem taint_source_root_only_witness:
  "\<exists>u. parseTemplateLiteral
          [TemplateElement (Some ''/x/'') ''/x/'', TemplateElement (Some []) []]
          [MemberExpression (MemberExpression (Identifier ''req'') (PropIdentifier ''params''))
             (PropIdentifier ''id'')] = Inr u
       \<and> 0 < length (parameters u)
       \<and> taint_source (parameters u ! 0) = Some True"
proof -
  let ?e = "MemberExpression (MemberExpression (Identifier ''req'') (PropIdentifier ''params''))
              (PropIdentifier ''id'')"
  let ?qs = "[TemplateElement (Some ''/x/'') ''/x/'', TemplateElement (Some []) []]"
  obtain u where u: "parseTemplateLiteral ?qs [?e] = Inr u" and n: "0 < length (parameters u)"
    by (simp add: parseTemplateLiteral_def quasiText_def js_or_def taintSources_def
        startsWith_def)
  have "rootIsSuspect ?e"
    by (simp add: rootIsSuspect_def taintSources_def startsWith_def)
  with taint_source_root_only [OF u n] u n show ?thesis by simp
qed

subsection \<open>The taint table\<close>

lemma reachesSinkVar_markTainted_other:
  "w \<noteq> v \<Longrightarrow> reachesSinkVar (markTainted w s op loc st) v = reachesSinkVar st v"
  by (simp add: reachesSinkVar_def markTainted_def)

lemma reachesSinkVar_propagateTaint:
  "reachesSinkVar st v \<Longrightarrow> reachesSinkVar (propagateTaint f t op loc st) v"
  by (auto simp: reachesSinkVar_def propagateTaint_def Let_def split: option.splits)

lemma reachesSinkVar_markSinkReached:
  "reachesSinkVar st v \<Longrightarrow> reachesSinkVar (markSinkReached c arg st) v"
  by (cases arg) (auto simp: reachesSinkVar_def split: option.splits)

lemma reachesSinkVar_fold_markSinkReached:
  "reachesSinkVar st v \<Longrightarrow> reachesSinkVar (fold (markSinkReached c) args st) v"
  by (induction args arbitrary: st) (auto intro: reachesSinkVar_markSinkReached)

lemma reachesSinkVar_visitCallExpression:
  "reachesSinkVar st v \<Longrightarrow> reachesSinkVar (visitCallExpression n st) v"
  by (cases n) (auto simp: Let_def intro: reachesSinkVar_fold_markSinkReached)

lemma reachesSinkVar_visitDeclarator:
  assumes "reachesSinkVar st v" and "\<not> declaresFromSource v d"
  shows "reachesSinkVar (visitDeclarator loc d st) v"
proof (cases d)
  case (VariableDeclarator ident init)
  show ?thesis
  proof (cases "getIdentifierName ident")
    case None
    with VariableDeclarator assms show ?thesis by simp
  next
    case (Some x)
    show ?thesis
    proof (cases init)
      case None
      with VariableDeclarator Some assms show ?thesis by simp
    next
      case (Some ini)
      let ?st1 = "case checkSource ini of
                    Some srcName \<Rightarrow>
                      if srcName \<noteq> [] then markTainted x (Some srcName) ''assignment'' loc st
                      else st
                  | None \<Rightarrow> st"
      have st1: "reachesSinkVar ?st1 v"
      proof (cases "checkSource ini")
        case None
        with assms show ?thesis by simp
      next
        case (Some s)
        with assms VariableDeclarator \<open>getIdentifierName ident = Some x\<close> \<open>init = Some ini\<close>
        have "x \<noteq> v" by auto
        with Some assms show ?thesis by (simp add: reachesSinkVar_markTainted_other)
      qed
      have "reachesSinkVar
              (case ini of
                 Identifier initVar \<Rightarrow>
                   if isTaintedVar ?st1 initVar
                   then propagateTaint initVar x ''assignment'' loc ?st1 else ?st1
               | _ \<Rightarrow> ?st1) v"
        using st1 by (cases ini) (auto intro: reachesSinkVar_propagateTaint)
      with VariableDeclarator \<open>getIdentifierName ident = Some x\<close> \<open>init = Some ini\<close> assms
      show ?thesis by (simp add: Let_def)
    qed
  qed
qed

lemma reachesSinkVar_fold_visitDeclarator:
  "reachesSinkVar st v \<Longrightarrow> \<not> list_ex (declaresFromSource v) ds \<Longrightarrow>
   reachesSinkVar (fold (visitDeclarator loc) ds st) v"
  by (induction ds arbitrary: st) (auto intro: reachesSinkVar_visitDeclarator)

lemma reachesSinkVar_visitAssignment:
  assumes "reachesSinkVar st v" and "\<not> marksAgain v n"
  shows "reachesSinkVar (visitAssignment n st) v"
proof (cases n)
  case (AssignmentExpression sp l r)
  show ?thesis
  proof (cases "getIdentifierName l")
    case None
    with AssignmentExpression assms show ?thesis by simp
  next
    case (Some x)
    let ?st1 = "case r of
                  Identifier rightVar \<Rightarrow>
                    if isTaintedVar st rightVar
                    then propagateTaint rightVar x ''assignment'' sp st else st
                | _ \<Rightarrow> st"
    have st1: "reachesSinkVar ?st1 v"
      using assms(1) by (cases r) (auto intro: reachesSinkVar_propagateTaint)
    have "reachesSinkVar
            (case checkSource r of
               Some srcName \<Rightarrow>
                 if srcName \<noteq> [] then markTainted x (Some srcName) ''assignment'' sp ?st1
                 else ?st1
             | None \<Rightarrow> ?st1) v"
    proof (cases "checkSource r")
      case None
      with st1 show ?thesis by simp
    next
      case (Some s)
      with assms AssignmentExpression \<open>getIdentifierName l = Some x\<close>
      have "x \<noteq> v" by auto
      with Some st1 show ?thesis by (simp add: reachesSinkVar_markTainted_other)
    qed
    with AssignmentExpression Some assms show ?thesis by (simp add: Let_def)
  qed
qed (use assms in auto)

lemma reachesSinkVar_visitNodeHandlers:
  "reachesSinkVar st v \<Longrightarrow> \<not> marksAgain v n \<Longrightarrow> reachesSinkVar (visitNodeHandlers n st) v"
proof (cases n)
  case (VariableDeclaration sp ds)
  assume "reachesSinkVar st v" "\<not> marksAgain v n"
  with VariableDeclaration show ?thesis
    by (simp add: reachesSinkVar_fold_visitDeclarator)
next
  case (AssignmentExpression sp l r)
  assume "reachesSinkVar st v" "\<not> marksAgain v n"
  with AssignmentExpression show ?thesis
    using reachesSinkVar_visitAssignment [of st v n] by simp
next
  case (CallExpression sp c args)
  assume "reachesSinkVar st v"
  with CallExpression show ?thesis
    using reachesSinkVar_visitCallExpression [of st v n] by simp
qed auto


text \<open>
  Claim C2, as stated, fails: after \<open>const x = req.query.q\<close> and \<open>fetch(x)\<close> the variable
  \<open>x\<close> has \<open>reaches_sink\<close> set, and the later assignment \<open>x = req.body.b\<close>, which makes the
  visitor call \<open>markTainted\<close> on \<open>x\<close>, replaces the entry by one without the flag.
\<close>

theorem reaches_sink_cleared_counterexample:
  "reachesSinkVar
     (fold visitNodeHandlers
        [VariableDeclaration None
           [VariableDeclarator (Identifier ''x'')
              (Some (MemberExpression
                 (MemberExpression (Identifier ''req'') (PropIdentifier ''query''))
                 (PropIdentifier ''q'')))],
         CallExpression None (Identifier ''fetch'') [Identifier ''x'']]
        newAnalyzer) ''x''
   \<and> \<not> reachesSinkVar
     (fold visitNodeHandlers
        [VariableDeclaration None
           [VariableDeclarator (Identifier ''x'')
              (Some (MemberExpression
                 (MemberExpression (Identifier ''req'') (PropIdentifier ''query''))
                 (PropIdentifier ''q'')))],
         CallExpression None (Identifier ''fetch'') [Identifier ''x''],
         AssignmentExpression None (Identifier ''x'')
           (MemberExpression
              (MemberExpression (Identifier ''req'') (PropIdentifier ''body''))
              (PropIdentifier ''b''))]
        newAnalyzer) ''x''"
  by (simp add: reachesSinkVar_def newAnalyzer_def visitMemberExpression_def getMemberPath_def
      sources_def sinks_def startsWith_def markTainted_def isTaintedVar_def)

text \<open>
  Claim C2, amended. Within one run, once the taint table records \<open>reaches_sink\<close> for a
  variable, the flag stays set under every later visitor operation (declarations,
  assignments, calls; every \<open>propagate\<close> and every sink annotation) other than one that
  calls \<open>mark_tainted\<close> on that same variable name, that is, a declaration or assignment
  of that variable from a source-matching member access.
\<close>

theorem reaches_sink_monotonic:
  "reachesSinkVar st v \<Longrightarrow> list_all (\<lambda>n. \<not> marksAgain v n) nodes \<Longrightarrow>
   reachesSinkVar (fold visitNodeHandlers nodes st) v"
  by (induction nodes arbitrary: st) (auto intro: reachesSinkVar_visitNodeHandlers)

theorem reaches_sink_monotonic_witness:
  "reachesSinkVar
     (fold visitNodeHandlers
        [VariableDeclaration None [VariableDeclarator (Identifier ''y'') (Some (Identifier ''x''))],
         AssignmentExpression None (Identifier ''x'') (Identifier ''y''),
         CallExpression None (Identifier ''eval'') [Identifier ''y'']]
        (fold visitNodeHandlers
           [VariableDeclaration None
              [VariableDeclarator (Identifier ''x'')
                 (Some (MemberExpression
                    (MemberExpression (Identifier ''req'') (PropIdentifier ''query''))
                    (PropIdentifier ''q'')))],
            CallExpression None (Identifier ''fetch'') [Identifier ''x'']]
           newAnalyzer)) ''x''"
proof -
  let ?st = "fold visitNodeHandlers
           [VariableDeclaration None
              [VariableDeclarator (Identifier ''x'')
                 (Some (MemberExpression
                    (MemberExpression (Identifier ''req'') (PropIdentifier ''query''))
                    (PropIdentifier ''q'')))],
            CallExpression None (Identifier ''fetch'') [Identifier ''x'']]
           newAnalyzer"
  have a: "reachesSinkVar ?st ''x''"
    by (simp add: reachesSinkVar_def newAnalyzer_def visitMemberExpression_def
        getMemberPath_def sources_def sinks_def startsWith_def markTainted_def isTaintedVar_def)
  have b: "list_all (\<lambda>n. \<not> marksAgain ''x'' n)
        [VariableDeclaration None [VariableDeclarator (Identifier ''y'') (Some (Identifier ''x''))],
         AssignmentExpression None (Identifier ''x'') (Identifier ''y''),
         CallExpression None (Identifier ''eval'') [Identifier ''y'']]"
    by simp
  from reaches_sink_monotonic [OF a b] show ?thesis .
qed

subsection \<open>Sink detection\<close>

lemma visitCallExpression_exact:
  "getCalleeName callee \<notin> set sinks \<Longrightarrow> visitCallExpression (CallExpression sp callee args) st = st"
  by (simp add: Let_def)

text \<open>
  Claim C1 asks for substring matching of the flattened callee name against the sink
  registry. The code tests membership, \<open>sinks.has(calleeName)\<close>: for \<open>axios.get(u)\<close> with
  \<open>u\<close> tainted, the callee name \<open>axios.get\<close> contains the sink fragment \<open>axios\<close>, and the
  call leaves the taint table as it was, while \<open>fetch(u)\<close> marks \<open>u\<close>.
\<close>

theorem visitCallExpression_axios_get_not_a_sink:
  "isTaintedVar (markTainted ''u'' (Some ''req.query'') ''assignment'' None newAnalyzer) ''u''
   \<and> getCalleeName (MemberExpression (Identifier ''axios'') (PropIdentifier ''get'')) = ''axios.get''
   \<and> specIsSink ''axios.get''
   \<and> visitCallExpression
        (CallExpression None (MemberExpression (Identifier ''axios'') (PropIdentifier ''get''))
           [Identifier ''u''])
        (markTainted ''u'' (Some ''req.query'') ''assignment'' None newAnalyzer)
      = markTainted ''u'' (Some ''req.query'') ''assignment'' None newAnalyzer
   \<and> \<not> reachesSinkVar
        (visitCallExpression
           (CallExpression None (MemberExpression (Identifier ''axios'') (PropIdentifier ''get''))
              [Identifier ''u''])
           (markTainted ''u'' (Some ''req.query'') ''assignment'' None newAnalyzer)) ''u''
   \<and> reachesSinkVar
        (visitCallExpression (CallExpression None (Identifier ''fetch'') [Identifier ''u''])
           (markTainted ''u'' (Some ''req.query'') ''assignment'' None newAnalyzer)) ''u''"
  by (simp add: isTaintedVar_def markTainted_def newAnalyzer_def getMemberPath_def
      specIsSink_def sinks_def startsWith_def reachesSinkVar_def)

subsection \<open>Propagation\<close>

text \<open>
  Claim C4. \<open>propagate(from_var, to_var, operation, location)\<close> changes nothing, neither
  taint table nor edge log, when \<open>from_var\<close> is not tainted. Otherwise \<open>to_var\<close> becomes
  tainted, its \<open>source_name\<close> is the one recorded for \<open>from_var\<close> (the origin label that
  \<open>from_var\<close> itself carries, not the name \<open>from_var\<close>), \<open>from_var\<close> is appended to the
  dependencies \<open>to_var\<close> had before, every other variable keeps its entry, and exactly one
  edge \<open>from_var\<close> to \<open>to_var\<close> is appended to the edge log.
\<close>

theorem propagateTaint_contract:
  "(\<not> isTaintedVar st fromVar \<longrightarrow> propagateTaint fromVar toVar op loc st = st) \<and>
   (isTaintedVar st fromVar \<longrightarrow>
      (\<exists>fromTaint toTaint.
         taintState st fromVar = Some fromTaint \<and>
         taintState (propagateTaint fromVar toVar op loc st) toVar = Some toTaint \<and>
         isTainted toTaint \<and>
         sourceName toTaint = sourceName fromTaint \<and>
         dependencies toTaint =
           (case taintState st toVar of Some t \<Rightarrow> dependencies t | None \<Rightarrow> []) @ [fromVar] \<and>
         (\<forall>w. w \<noteq> toVar \<longrightarrow>
            taintState (propagateTaint fromVar toVar op loc st) w = taintState st w) \<and>
         dataflowEdges (propagateTaint fromVar toVar op loc st) =
           dataflowEdges st @
             [\<lparr>from_edge = fromVar, to_edge = toVar, operation_edge = op,
               location_edge = loc\<rparr>]))"
  by (auto simp: isTaintedVar_def propagateTaint_def Let_def freshTaint_def
      split: option.splits)

theorem propagateTaint_contract_witness:
  "\<exists>t. taintState
         (propagateTaint ''b'' ''c'' ''assignment'' None
            (propagateTaint ''a'' ''c'' ''assignment'' None
               (propagateTaint ''a'' ''b'' ''assignment'' None
                  (markTainted ''a'' (Some ''req.params'') ''assignment'' None newAnalyzer))))
         ''c'' = Some t
       \<and> isTainted t \<and> sourceName t = Some ''req.params'' \<and> dependencies t = [''a'', ''b'']
   \<and> propagateTaint ''z'' ''c'' ''assignment'' None newAnalyzer = newAnalyzer"
proof -
  let ?s1 = "propagateTaint ''a'' ''c'' ''assignment'' None
               (propagateTaint ''a'' ''b'' ''assignment'' None
                  (markTainted ''a'' (Some ''req.params'') ''assignment'' None newAnalyzer))"
  have tb: "isTaintedVar ?s1 ''b''"
    by (simp add: isTaintedVar_def propagateTaint_def markTainted_def newAnalyzer_def
        freshTaint_def Let_def)
  have b: "taintState ?s1 ''b'' \<noteq> None \<and> sourceName (the (taintState ?s1 ''b'')) = Some ''req.params''"
    by (simp add: propagateTaint_def markTainted_def newAnalyzer_def freshTaint_def Let_def)
  have c: "(case taintState ?s1 ''c'' of Some t \<Rightarrow> dependencies t | None \<Rightarrow> []) = [''a'']"
    by (simp add: propagateTaint_def markTainted_def newAnalyzer_def freshTaint_def Let_def)
  have z: "\<not> isTaintedVar newAnalyzer ''z''"
    by (simp add: isTaintedVar_def newAnalyzer_def)
  from propagateTaint_contract [of ?s1 "''b''" "''c''" "''assignment''" None] tb b c
  have "\<exists>t. taintState (propagateTaint ''b'' ''c'' ''assignment'' None ?s1) ''c'' = Some t
       \<and> isTainted t \<and> sourceName t = Some ''req.params'' \<and> dependencies t = [''a'', ''b'']"
    by auto
  moreover from propagateTaint_contract [of newAnalyzer "''z''" "''c''" "''assignment''" None] z
  have "propagateTaint ''z'' ''c'' ''assignment'' None newAnalyzer = newAnalyzer" by simp
  ultimately show ?thesis by simp
qed

subsection \<open>Confidence\<close>

lemma exp_tenth_approx: "(9009 / 10000 :: real) < exp (- (1 / 10)) \<and> exp (- (1 / 10)) < (905 / 1000 :: real)"
proof -
  have lo: "(1105 / 1000 :: real) \<le> exp (1 / 10)"
    using exp_lower_Taylor_quadratic [of "1 / 10 :: real"] by (simp add: power2_eq_square)
  have hi: "exp (1 / 10) \<le> (111 / 100 :: real)"
    using exp_bound [of "1 / 10 :: real"] by (simp add: power2_eq_square)
  have e: "exp (- (1 / 10)) = 1 / exp (1 / 10 :: real)"
    by (simp add: exp_minus inverse_eq_divide)
  have pos: "0 < exp (1 / 10 :: real)" by simp
  from lo pos have "1 / exp (1 / 10 :: real) \<le> 1 / (1105 / 1000)"
    by (intro divide_left_mono) auto
  moreover from hi pos have "1 / (111 / 100) \<le> 1 / exp (1 / 10 :: real)"
    by (intro divide_left_mono) auto
  ultimately show ?thesis unfolding e by simp
qed

lemma sanitizer_fold_unsanitized:
  "\<not> list_ex isSanitized path \<Longrightarrow>
   fold (\<lambda>st c. if isSanitized st then c * (3 / 10) else c) path (c::real) = c"
  by (induction path arbitrary: c) auto

text \<open>
  Claim C7. Computed in the real numbers, the confidence of every path lies in the closed
  interval from 0 to 1, and for a path of one step whose operation contains no sanitizer
  name it is \<open>exp (- 0.1)\<close>, a number between 0.9009 and 0.905.
\<close>

theorem calculateConfidence_range:
  "0 \<le> calculateConfidence path \<and> calculateConfidence path \<le> 1 \<and>
   (length path = 1 \<and> \<not> list_ex isSanitized path \<longrightarrow>
      calculateConfidence path = exp (- (1 / 10)) \<and>
      9009 / 10000 < calculateConfidence path \<and> calculateConfidence path < 905 / 1000)"
proof -
  have range: "0 \<le> calculateConfidence path \<and> calculateConfidence path \<le> 1"
    by (simp add: calculateConfidence_def Let_def)
  have "calculateConfidence path = exp (- (1 / 10))"
    if "length path = 1" and "\<not> list_ex isSanitized path"
  proof -
    have "(0::real) \<le> exp (- (1 / 10))" "exp (- (1 / 10)) \<le> (1::real)" by simp_all
    with that show ?thesis
      by (simp add: calculateConfidence_def Let_def sanitizer_fold_unsanitized)
  qed
  with range exp_tenth_approx show ?thesis by auto
qed

theorem calculateConfidence_range_witness:
  "calculateConfidence
     [\<lparr>variable = ''url'', operation_step = Some ''assignment'', location_step = None\<rparr>]
   = exp (- (1 / 10))"
proof -
  have "\<not> list_ex isSanitized
     [\<lparr>variable = ''url'', operation_step = Some ''assignment'', location_step = None\<rparr>]"
    by (simp add: isSanitized_def sanitizers_def startsWith_def)
  with calculateConfidence_range
    [of "[\<lparr>variable = ''url'', operation_step = Some ''assignment'', location_step = None\<rparr>]"]
  show ?thesis by simp
qed


subsection \<open>Deduplication\<close>

lemma extractJQueryEndpoint_ajaxItems:
  "extractJQueryEndpoint ''app.js'' ajaxItemsCall [''Module'', ''CallExpression''] =
     Inr (Some ajaxItemsCandidate)"
  by (simp add: ajaxItemsCall_def ajaxItemsCandidate_def parseURL_def parameterizeURL_def
      parameterizeSegment_def isNumericSegment_def isUuidSegment_def isDigit_def
      jqueryMethod_def startsWith_def upt_rec)

text \<open>
  With evidence on both records, two candidates with the same key are merged into the
  first one, and the evidence of the result has the same entries in either order.
\<close>

lemma deduplicateEndpoints_two:
  assumes "endpointKey a = endpointKey b" "evidence a = Some ea" "evidence b = Some eb"
  shows "deduplicateEndpoints [a, b] = Inr [a\<lparr>evidence := Some (ea @ eb)\<rparr>]"
    and "deduplicateEndpoints [b, a] = Inr [b\<lparr>evidence := Some (eb @ ea)\<rparr>]"
    and "set (ea @ eb) = set (eb @ ea)"
  using assms by (auto simp: deduplicateEndpoints_def dedupStep_def Let_def)

text \<open>
  Claim C6 describes the deduplication of any candidates: the first record of a key is
  kept and later ones add their evidence. The code does this for candidates that carry
  \<open>evidence\<close>, but the candidates of \<open>extractJQueryEndpoint\<close> (and of
  \<open>extractWebSocketEndpoint\<close>) have none: for two call sites \<open>$.ajax({url: '/api/items'})\<close>
  the extractor yields the same candidate twice, and deduplicating the two throws instead
  of keeping the first.
\<close>

theorem deduplicateEndpoints_jquery_duplicates_throw:
  "isJQueryAjax ajaxItemsCall
   \<and> extractJQueryEndpoint ''app.js'' ajaxItemsCall [''Module'', ''CallExpression''] =
       Inr (Some ajaxItemsCandidate)
   \<and> evidence ajaxItemsCandidate = None
   \<and> deduplicateEndpoints [ajaxItemsCandidate] = Inr [ajaxItemsCandidate]
   \<and> deduplicateEndpoints [ajaxItemsCandidate, ajaxItemsCandidate] = Inl TypeError"
proof -
  have "isJQueryAjax ajaxItemsCall" by (simp add: ajaxItemsCall_def)
  moreover have "evidence ajaxItemsCandidate = None" by (simp add: ajaxItemsCandidate_def)
  moreover from this have
    "deduplicateEndpoints [ajaxItemsCandidate, ajaxItemsCandidate] = Inl TypeError"
    by (simp add: deduplicateEndpoints_def dedupStep_def Let_def)
  moreover have "deduplicateEndpoints [ajaxItemsCandidate] = Inr [ajaxItemsCandidate]"
    by (simp add: deduplicateEndpoints_def dedupStep_def Let_def)
  ultimately show ?thesis using extractJQueryEndpoint_ajaxItems by simp
qed


lemma seenSet_fresh:
  "k \<notin> fst ` set seen \<Longrightarrow> seenSet k ep seen = seen @ [(k, ep)]"
  by (induction seen) auto

lemma seenSet_keys:
  "k \<in> fst ` set seen \<Longrightarrow> map fst (seenSet k ep seen) = map fst seen"
  by (induction seen) force+

lemma seenSet_subset: "set (seenSet k ep seen) \<subseteq> insert (k, ep) (set seen)"
  by (induction seen) (auto split: if_splits)

lemma seenSet_map:
  "distinct (map fst seen) \<Longrightarrow> map_of seen k = Some x \<Longrightarrow>
   map f (seenSet k x' seen) = map (\<lambda>p. if fst p = k then f (k, x') else f p) seen"
proof (induction seen)
  case Nil
  then show ?case by simp
next
  case (Cons p seen)
  obtain k' y where p: "p = (k', y)" by (cases p)
  show ?case
  proof (cases "k' = k")
    case True
    with Cons.prems p have "k \<notin> fst ` set seen" by auto
    then have "map (\<lambda>p. if fst p = k then f (k, x') else f p) seen = map f seen"
      by (intro map_cong) auto
    with True p show ?thesis by simp
  next
    case False
    with Cons p show ?thesis by simp
  qed
qed

lemma endpointKey_evidence [simp]:
  "endpointKey (ep\<lparr>evidence := ev\<rparr>) = endpointKey ep"
  by (simp add: endpointKey_def)

lemma dedupLoop_spec:
  "distinct (map fst seen) \<Longrightarrow> list_all (\<lambda>p. evidence (snd p) \<noteq> None) seen \<Longrightarrow>
   list_all (\<lambda>ep. evidence ep \<noteq> None) eps \<Longrightarrow>
   dedupLoop eps seen =
     Inr (map (withLaterEvidence eps) seen @
          map (\<lambda>x. (endpointKey x, x))
            (specDedup (filter (\<lambda>y. endpointKey y \<notin> fst ` set seen) eps)))"
proof (induction eps arbitrary: seen)
  case Nil
  have "map (withLaterEvidence []) seen = seen"
  proof (rule map_idI)
    fix p assume "p \<in> set seen"
    with Nil.prems(2) obtain ev where "evidence (snd p) = Some ev"
      by (auto simp: list_all_iff)
    then show "withLaterEvidence [] p = p"
      by (cases p) (simp add: withLaterEvidence_def evidenceOf_def)
  qed
  then show ?case by simp
next
  case (Cons ep eps)
  let ?k = "endpointKey ep"
  from Cons.prems(3) obtain new where new: "evidence ep = Some new" by auto
  from Cons.prems(3) have rest: "list_all (\<lambda>ep. evidence ep \<noteq> None) eps" by simp
  show ?case
  proof (cases "map_of seen ?k")
    case None
    then have fresh: "?k \<notin> fst ` set seen" by (simp add: map_of_eq_None_iff)
    let ?seen' = "seen @ [(?k, ep)]"
    have step: "dedupStep ep seen = Inr ?seen'"
      using None fresh by (simp add: dedupStep_def Let_def seenSet_fresh)
    have d: "distinct (map fst ?seen')" using Cons.prems(1) fresh by auto
    have e: "list_all (\<lambda>p. evidence (snd p) \<noteq> None) ?seen'"
      using Cons.prems(2) new by simp
    have old: "map (withLaterEvidence (ep # eps)) seen = map (withLaterEvidence eps) seen"
    proof (rule map_cong [OF refl])
      fix p assume "p \<in> set seen"
      with fresh have "fst p \<noteq> ?k" by force
      then show "withLaterEvidence (ep # eps) p = withLaterEvidence eps p"
        by (simp add: withLaterEvidence_def)
    qed
    have f1: "filter (\<lambda>x. endpointKey x = ?k) (filter (\<lambda>y. endpointKey y \<notin> fst ` set seen) eps)
        = filter (\<lambda>x. endpointKey x = ?k) eps"
    proof -
      have "filter (\<lambda>x. endpointKey x \<notin> fst ` set seen \<and> endpointKey x = ?k) eps
          = filter (\<lambda>x. endpointKey x = ?k) eps"
        by (rule filter_cong [OF refl]) (use fresh in force)
      then show ?thesis by simp
    qed
    have f2: "filter (\<lambda>x. endpointKey x \<noteq> ?k) (filter (\<lambda>y. endpointKey y \<notin> fst ` set seen) eps)
        = filter (\<lambda>y. endpointKey y \<notin> fst ` set ?seen') eps"
    proof -
      have "filter (\<lambda>x. endpointKey x \<notin> fst ` set seen \<and> endpointKey x \<noteq> ?k) eps
          = filter (\<lambda>y. endpointKey y \<notin> fst ` set ?seen') eps"
        by (rule filter_cong [OF refl]) force
      then show ?thesis by simp
    qed
    from Cons.IH [OF d e rest] step old fresh f1 f2 show ?thesis
      by (simp add: withLaterEvidence_def)
  next
    case (Some existing)
    then have mem: "(?k, existing) \<in> set seen" by (rule map_of_SomeD)
    then have known: "?k \<in> fst ` set seen" by force
    from mem Cons.prems(2) obtain old where old: "evidence existing = Some old"
      by (auto simp: list_all_iff)
    let ?merged = "existing\<lparr>evidence := Some (old @ new)\<rparr>"
    let ?seen' = "seenSet ?k ?merged seen"
    have step: "dedupStep ep seen = Inr ?seen'"
      using Some old new by (simp add: dedupStep_def Let_def)
    have keys: "map fst ?seen' = map fst seen" using known by (rule seenSet_keys)
    then have keyset: "fst ` set ?seen' = fst ` set seen"
      by (metis list.set_map)
    have d: "distinct (map fst ?seen')" using Cons.prems(1) keys by simp
    have e: "list_all (\<lambda>p. evidence (snd p) \<noteq> None) ?seen'"
      using Cons.prems(2) seenSet_subset [of ?k ?merged seen]
      by (auto simp: list_all_iff)
    have "map (withLaterEvidence eps) ?seen' =
          map (\<lambda>p. if fst p = ?k then withLaterEvidence eps (?k, ?merged)
                    else withLaterEvidence eps p) seen"
      by (rule seenSet_map [OF Cons.prems(1) Some])
    also have "\<dots> = map (withLaterEvidence (ep # eps)) seen"
    proof (rule map_cong [OF refl])
      fix p assume p: "p \<in> set seen"
      show "(if fst p = ?k then withLaterEvidence eps (?k, ?merged)
             else withLaterEvidence eps p) = withLaterEvidence (ep # eps) p"
      proof (cases "fst p = ?k")
        case True
        with p Cons.prems(1) mem have "p = (?k, existing)"
          by (metis eq_key_imp_eq_value prod.collapse)
        then show ?thesis
          using old new by (simp add: withLaterEvidence_def evidenceOf_def)
      next
        case False
        then show ?thesis by (auto simp: withLaterEvidence_def)
      qed
    qed
    finally have first: "map (withLaterEvidence eps) ?seen' =
        map (withLaterEvidence (ep # eps)) seen" .
    from Cons.IH [OF d e rest] step first keyset known show ?thesis by simp
  qed
qed

text \<open>
  On candidates that all carry evidence, the code deduplicates as the specification says;
  in particular it does not throw.
\<close>

lemma deduplicateEndpoints_spec:
  "list_all (\<lambda>ep. evidence ep \<noteq> None) eps \<Longrightarrow> deduplicateEndpoints eps = Inr (specDedup eps)"
  using dedupLoop_spec [of "[]" eps]
  by (simp add: deduplicateEndpoints_def comp_def)


subsection \<open>Header extraction\<close>









subsection \<open>The tree walker\<close>


























end
